theory Spec2Isabelle
  imports Main "HOL-Library.AList"
begin

section \<open>Values of the form tree\<close>

text \<open>
  The form tree is a JavaScript value: a primitive, an array or a plain record.
  Numbers are restricted to the integers. A record is an association list from keys to
  values; the first binding of a key is the one that counts. A key is a name or a
  numeric index, and the two are kept apart.
\<close>

datatype key = KStr string | KNum nat

datatype jsval =
    Undefined
  | Null
  | Bool bool
  | Num int
  | Str string
  | Arr "jsval list"
  | Obj "(key \<times> jsval) list"

text \<open>\<^verbatim>\<open>PathSegment\<close>: a key and the flag telling that it addresses an array element.\<close>

record PathSegment =
  key :: key
  array :: bool

type_synonym path = "PathSegment list"

subsection \<open>Printing\<close>

definition digit :: "nat \<Rightarrow> char" where
  "digit d = char_of (48 + d)"

function dec :: "nat \<Rightarrow> string" where
  "dec n = (if n < 10 then [digit n] else dec (n div 10) @ [digit (n mod 10)])"
  by pat_completeness auto
termination
  by (relation "measure (\<lambda>n. n)") auto

declare dec.simps [simp del]

definition dec_int :: "int \<Rightarrow> string" where
  "dec_int i = (if i < 0 then CHR ''-'' # dec (nat (- i)) else dec (nat i))"

fun join :: "string \<Rightarrow> string list \<Rightarrow> string" where
  "join sep [] = []"
| "join sep [x] = x"
| "join sep (x # y # ys) = x @ sep @ join sep (y # ys)"

text \<open>A key as it is printed inside a dotted name.\<close>

fun key_string :: "key \<Rightarrow> string" where
  "key_string (KStr s) = s"
| "key_string (KNum n) = dec n"

text \<open>\<^verbatim>\<open>String(v)\<close>; inside an array, \<^verbatim>\<open>null\<close> and \<^verbatim>\<open>undefined\<close> print as nothing.\<close>

fun js_String :: "jsval \<Rightarrow> string" where
  "js_String Undefined = ''undefined''"
| "js_String Null = ''null''"
| "js_String (Bool b) = (if b then ''true'' else ''false'')"
| "js_String (Num i) = dec_int i"
| "js_String (Str s) = s"
| "js_String (Arr xs) =
     join '','' (map (\<lambda>x. if x = Undefined \<or> x = Null then [] else js_String x) xs)"
| "js_String (Obj kvs) = ''[object Object]''"

text \<open>\<^verbatim>\<open>Boolean(v)\<close>.\<close>

fun js_Boolean :: "jsval \<Rightarrow> bool" where
  "js_Boolean Undefined = False"
| "js_Boolean Null = False"
| "js_Boolean (Bool b) = b"
| "js_Boolean (Num i) = (i \<noteq> 0)"
| "js_Boolean (Str s) = (s \<noteq> [])"
| "js_Boolean (Arr xs) = True"
| "js_Boolean (Obj kvs) = True"

text \<open>\<^verbatim>\<open>v ?? d\<close>.\<close>

definition nullish :: "jsval \<Rightarrow> jsval \<Rightarrow> jsval" where
  "nullish v d = (if v = Undefined \<or> v = Null then d else v)"

definition lower_char :: "char \<Rightarrow> char" where
  "lower_char c =
     (if 65 \<le> (of_char c :: nat) \<and> (of_char c :: nat) \<le> 90
      then char_of ((of_char c :: nat) + 32) else c)"

definition toLowerCase :: "string \<Rightarrow> string" where
  "toLowerCase s = map lower_char s"

section \<open>Path utilities\<close>

text \<open>The value a container holds under a key; \<^verbatim>\<open>undefined\<close> when there is none.\<close>

fun lookup :: "(key \<times> jsval) list \<Rightarrow> key \<Rightarrow> jsval" where
  "lookup [] k = Undefined"
| "lookup ((k', v) # kvs) k = (if k' = k then v else lookup kvs k)"

fun child :: "jsval \<Rightarrow> key \<Rightarrow> jsval" where
  "child (Obj kvs) k = lookup kvs k"
| "child (Arr xs) (KNum i) = (if i < length xs then xs ! i else Undefined)"
| "child v k = Undefined"

text \<open>
  Modelled from the spec: \<^verbatim>\<open>getDeepProp\<close> of \<^verbatim>\<open>utils\<close>, which is not among the
  sources. It walks the path from the root and returns \<^verbatim>\<open>undefined\<close> as soon as
  a segment is absent.
\<close>

fun getDeepProp :: "jsval \<Rightarrow> path \<Rightarrow> jsval" where
  "getDeepProp t [] = t"
| "getDeepProp t (p # ps) = getDeepProp (child t (key p)) ps"

fun store :: "(key \<times> jsval) list \<Rightarrow> key \<Rightarrow> jsval \<Rightarrow> (key \<times> jsval) list" where
  "store [] k v = [(k, v)]"
| "store ((k', v') # kvs) k v = (if k' = k then (k, v) # kvs else (k', v') # store kvs k v)"

text \<open>Writing past the end of an array extends it with \<^verbatim>\<open>undefined\<close>.\<close>

definition store_index :: "jsval list \<Rightarrow> nat \<Rightarrow> jsval \<Rightarrow> jsval list" where
  "store_index xs i v = (xs @ replicate (Suc i - length xs) Undefined)[i := v]"

text \<open>
  The copy of a container with one entry replaced. A name written into an array turns
  the copy into a record that keeps the elements under their indices.
\<close>

fun put :: "jsval \<Rightarrow> key \<Rightarrow> jsval \<Rightarrow> jsval" where
  "put (Obj kvs) k v = Obj (store kvs k v)"
| "put (Arr xs) (KNum i) v = Arr (store_index xs i v)"
| "put (Arr xs) (KStr s) v = Obj (store (zip (map KNum [0..<length xs]) xs) (KStr s) v)"
| "put t k v = Obj [(k, v)]"

text \<open>
  The container a segment is written into: the node itself when it is a container,
  and otherwise a new empty sequence or record, as the segment's flag says.
\<close>

fun container :: "jsval \<Rightarrow> PathSegment \<Rightarrow> jsval" where
  "container (Obj kvs) p = Obj kvs"
| "container (Arr xs) p = Arr xs"
| "container t p = (if array p then Arr [] else Obj [])"

text \<open>
  Modelled from the spec: \<^verbatim>\<open>setDeepProp\<close> of \<^verbatim>\<open>utils\<close>, which is not among the
  sources. It returns a new tree equal to the input except at the path; the containers
  missing along the path are created empty, and the empty path replaces the whole tree.
\<close>

fun setDeepProp :: "jsval \<Rightarrow> path \<Rightarrow> jsval \<Rightarrow> jsval" where
  "setDeepProp t [] v = v"
| "setDeepProp t (p # ps) v =
     (let c = container t p in put c (key p) (setDeepProp (child c (key p)) ps v))"

text \<open>Two paths part ways: at some position, before either ends, their keys differ.\<close>

fun diverge :: "path \<Rightarrow> path \<Rightarrow> bool" where
  "diverge (p # ps) (q # qs) = (if key p = key q then diverge ps qs else True)"
| "diverge ps qs = False"

section \<open>Structural equality\<close>

text \<open>
  Modelled from the spec: \<^verbatim>\<open>deepEqual\<close> of \<^verbatim>\<open>utils\<close>, which is not among the
  sources. Two records are equal when they have the same keys and equal values under
  each key, in any order; two sequences when they have the same length and equal
  elements in order; two primitives when they are the same value; a record, a sequence
  and a primitive are never equal to one another.
\<close>

function (sequential) deepEqual :: "jsval \<Rightarrow> jsval \<Rightarrow> bool" where
  "deepEqual (Obj xs) (Obj ys) =
     (set (map fst xs) = set (map fst ys) \<and>
      (\<forall>k \<in> set (map fst xs). deepEqual (lookup xs k) (lookup ys k)))"
| "deepEqual (Arr xs) (Arr ys) =
     (length xs = length ys \<and> (\<forall>i \<in> set [0..<length xs]. deepEqual (xs ! i) (ys ! i)))"
| "deepEqual (Obj xs) b = False"
| "deepEqual a (Obj ys) = False"
| "deepEqual (Arr xs) b = False"
| "deepEqual a (Arr ys) = False"
| "deepEqual a b = (a = b)"
  by pat_completeness auto
termination
proof (relation "measure (\<lambda>(a, b). size a)")
  show "wf (measure (\<lambda>(a, b). size a))" by simp
next
  fix xs ys :: "(key \<times> jsval) list" and k
  assume "k \<in> set (map fst xs)"
  then have "size (lookup xs k) \<le> size_list (size_prod (\<lambda>_. 0) size) xs"
  proof (induction xs)
    case Nil
    then show ?case by simp
  next
    case (Cons a kvs)
    obtain k' v' where a: "a = (k', v')" by (cases a)
    show ?case
    proof (cases "k' = k")
      case True
      with a show ?thesis by simp
    next
      case False
      with Cons.prems a have "k \<in> set (map fst kvs)" by auto
      from Cons.IH [OF this] a False show ?thesis by simp
    qed
  qed
  then show "((lookup xs k, lookup ys k), Obj xs, Obj ys) \<in> measure (\<lambda>(a, b). size a)"
    by simp
next
  fix xs ys :: "jsval list" and i
  assume "i \<in> set [0..<length xs]"
  then have "xs ! i \<in> set xs" by simp
  then have "size (xs ! i) \<le> size_list size xs"
    by (rule size_list_estimation') (rule order_refl)
  then show "((xs ! i, ys ! i), Arr xs, Arr ys) \<in> measure (\<lambda>(a, b). size a)"
    by simp
qed

text \<open>A leaf value is a primitive.\<close>

fun is_leaf :: "jsval \<Rightarrow> bool" where
  "is_leaf (Arr xs) = False"
| "is_leaf (Obj kvs) = False"
| "is_leaf v = True"

section \<open>Schema\<close>

text \<open>The kinds of schema node: leaves, composites and the wrappers around another node.\<close>

datatype ZodType =
    ZodString
  | ZodNumber
  | ZodBoolean
  | ZodArray ZodType
  | ZodObject "(string \<times> ZodType) list"
  | ZodOptional ZodType
  | ZodNullable ZodType
  | ZodDefault ZodType jsval
  | ZodEffects ZodType

text \<open>
  Modelled from the spec: \<^verbatim>\<open>unwrapZodType\<close> of \<^verbatim>\<open>utils\<close>, which is not among the
  sources. It follows the optional, default, nullable and effect wrappers down to the
  innermost concrete kind.
\<close>

fun unwrapZodType :: "ZodType \<Rightarrow> ZodType" where
  "unwrapZodType (ZodOptional t) = unwrapZodType t"
| "unwrapZodType (ZodNullable t) = unwrapZodType t"
| "unwrapZodType (ZodDefault t d) = unwrapZodType t"
| "unwrapZodType (ZodEffects t) = unwrapZodType t"
| "unwrapZodType t = t"

text \<open>A validation failure: the issues of the schema library, each with its path.\<close>

record ZodIssue =
  issue_code :: string
  issue_path :: "key list"
  issue_message :: string

type_synonym ZodError = "ZodIssue list"

section \<open>Controls\<close>

text \<open>
  A native control (\<^verbatim>\<open>input\<close>, \<^verbatim>\<open>textarea\<close>, \<^verbatim>\<open>select\<close>) with the three
  properties the hook reads and writes: \<^verbatim>\<open>type\<close>, \<^verbatim>\<open>value\<close> and
  \<^verbatim>\<open>checked\<close>. Controls live in the document and are reached through references,
  so two entries of the registration table may hold the same control.
\<close>

record control =
  ctype :: "string option"
  cvalue :: string
  checked :: bool

type_synonym element = nat

text \<open>
  Modelled from the spec: \<^verbatim>\<open>isRadio\<close> and \<^verbatim>\<open>isCheckbox\<close> of \<^verbatim>\<open>utils\<close>, which are
  not among the sources: a radio control and a checkbox control, told by the type of
  the control as the change handler tells a checkbox.
\<close>

definition isRadio :: "control \<Rightarrow> bool" where
  "isRadio c = (map_option toLowerCase (ctype c) = Some ''radio'')"

definition isCheckbox :: "control \<Rightarrow> bool" where
  "isCheckbox c = (map_option toLowerCase (ctype c) = Some ''checkbox'')"

section \<open>The form controller\<close>

text \<open>
  \<^verbatim>\<open>UseFormOptions\<close>. The schema is the parser of the schema library: it gives the
  parsed value or the error. \<^verbatim>\<open>initialValues\<close> is \<^verbatim>\<open>undefined\<close> when not given.
\<close>

record UseFormOptions =
  schema :: "jsval \<Rightarrow> ZodError + jsval"
  initialValues :: jsval

text \<open>An entry of the registration table.\<close>

record FieldRef =
  path :: path
  ref :: element

text \<open>
  The state of the hook: its four state cells and the registration table, together
  with the controls of the document that the table refers to.
\<close>

record form_state =
  formValue :: jsval
  formErrors :: "ZodError option"
  fieldRefs :: "(string \<times> FieldRef) list"
  validateOnChange :: bool
  internalInitialValues :: jsval
  dom :: "element \<Rightarrow> control"

text \<open>The default of the destructured option: \<^verbatim>\<open>initialValues = {}\<close>.\<close>

definition initial_values :: "UseFormOptions \<Rightarrow> jsval" where
  "initial_values opts = (if initialValues opts = Undefined then Obj [] else initialValues opts)"

text \<open>A deep copy of a value is the value.\<close>

definition structuredClone :: "jsval \<Rightarrow> jsval" where
  "structuredClone v = v"

text \<open>The state of the first render, over the controls of the document.\<close>

definition useForm :: "UseFormOptions \<Rightarrow> (element \<Rightarrow> control) \<Rightarrow> form_state" where
  "useForm opts d =
     \<lparr> formValue = structuredClone (initial_values opts),
       formErrors = None,
       fieldRefs = [],
       validateOnChange = False,
       internalInitialValues = structuredClone (initial_values opts),
       dom = d \<rparr>"

definition isDirty :: "form_state \<Rightarrow> bool" where
  "isDirty s = (\<not> deepEqual (formValue s) (internalInitialValues s))"

text \<open>\<^verbatim>\<open>reset\<close>: an argument that is \<^verbatim>\<open>undefined\<close> takes the default.\<close>

definition reset :: "UseFormOptions \<Rightarrow> jsval \<Rightarrow> form_state \<Rightarrow> form_state" where
  "reset opts values s =
     (let v = (if values = Undefined then initial_values opts else values)
      in s\<lparr>internalInitialValues := v, formValue := v\<rparr>)"

text \<open>\<^verbatim>\<open>validate\<close>: the value it returns (\<^verbatim>\<open>undefined\<close> on failure) and the new state.\<close>

definition validate :: "UseFormOptions \<Rightarrow> form_state \<Rightarrow> jsval \<times> form_state" where
  "validate opts s =
     (case schema opts (formValue s) of
        Inr data \<Rightarrow> (data, s\<lparr>formErrors := None\<rparr>)
      | Inl error \<Rightarrow> (Undefined, s\<lparr>formErrors := Some error\<rparr>))"

text \<open>What the effect writes into one control, given the value of the tree at its path.\<close>

definition set_control :: "jsval \<Rightarrow> control \<Rightarrow> control" where
  "set_control v c =
     (if isRadio c then
        (if Str (cvalue c) = v then c\<lparr>checked := True\<rparr> else c\<lparr>checked := False\<rparr>)
      else if isCheckbox c then c\<lparr>checked := js_Boolean v\<rparr>
      else c\<lparr>cvalue := js_String (nullish v (Str []))\<rparr>)"

text \<open>The body of the loop over the registered fields.\<close>

definition set_field :: "jsval \<Rightarrow> FieldRef \<Rightarrow> (element \<Rightarrow> control) \<Rightarrow> (element \<Rightarrow> control)" where
  "set_field fv fr d = d(ref fr := set_control (getDeepProp fv (path fr)) (d (ref fr)))"

text \<open>
  \<^verbatim>\<open>Object.values\<close> of the table, in the order of insertion. What is proved of the
  loop below holds of the entries in any order.
\<close>

definition Object_values :: "(string \<times> FieldRef) list \<Rightarrow> FieldRef list" where
  "Object_values tab = map snd tab"

definition set_fields :: "jsval \<Rightarrow> FieldRef list \<Rightarrow> (element \<Rightarrow> control) \<Rightarrow> (element \<Rightarrow> control)" where
  "set_fields fv frs d = fold (set_field fv) frs d"

text \<open>
  The effect that watches the value: it validates when validation on change is on,
  and sets the registered controls.
\<close>

definition useEffect :: "UseFormOptions \<Rightarrow> form_state \<Rightarrow> form_state" where
  "useEffect opts s =
     (let s1 = (if validateOnChange s then snd (validate opts s) else s)
      in s1\<lparr>dom := set_fields (formValue s) (Object_values (fieldRefs s)) (dom s1)\<rparr>)"

text \<open>The submit event, with the two flags the handler sets.\<close>

record FormEvent =
  defaultPrevented :: bool
  propagationStopped :: bool

text \<open>
  A submit handler is the code of the caller: it is called with the parsed values,
  and it either returns or throws.
\<close>

datatype outcome = Returned | Thrown

type_synonym SubmitHandler = "jsval \<Rightarrow> outcome"

text \<open>
  The function \<^verbatim>\<open>handleSubmit(handler)\<close> returns, run on an event. Its results are
  the event, the value the handler was called with, if it was called, the way the
  function ended, and the state. When the handler throws, the function ends there, and
  the statement after the call is not reached.
\<close>

definition handleSubmit ::
  "UseFormOptions \<Rightarrow> SubmitHandler \<Rightarrow> FormEvent \<Rightarrow> form_state \<Rightarrow>
     FormEvent \<times> jsval option \<times> outcome \<times> form_state" where
  "handleSubmit opts handler e s =
     (let e1 = e\<lparr>defaultPrevented := True\<rparr>;
          e2 = e1\<lparr>propagationStopped := True\<rparr>;
          (values, s1) = validate opts s
      in if js_Boolean values then
           (case handler values of
              Thrown \<Rightarrow> (e2, Some values, Thrown, s1)
            | Returned \<Rightarrow> (e2, Some values, Returned, s1\<lparr>validateOnChange := True\<rparr>))
         else (e2, None, Returned, s1\<lparr>validateOnChange := True\<rparr>))"

text \<open>
  A submit reaches the end of the function when validation fails, so that the handler
  is not called, or when the handler returns.
\<close>

definition submit_completes :: "UseFormOptions \<Rightarrow> SubmitHandler \<Rightarrow> form_state \<Rightarrow> bool" where
  "submit_completes opts handler s =
     (case schema opts (formValue s) of
        Inl error \<Rightarrow> True
      | Inr data \<Rightarrow> (if js_Boolean data then handler data = Returned else True))"

text \<open>\<^verbatim>\<open>setFormValue\<close> with an updater.\<close>

definition setFormValue :: "(jsval \<Rightarrow> jsval) \<Rightarrow> form_state \<Rightarrow> form_state" where
  "setFormValue f s = s\<lparr>formValue := f (formValue s)\<rparr>"

text \<open>The name \<^verbatim>\<open>register\<close> gives a field: the keys of its path joined by dots.\<close>

definition register_name :: "path \<Rightarrow> string" where
  "register_name p = join ''.'' (map (\<lambda>seg. key_string (key seg)) p)"

text \<open>The value the change handler stores, read from the control of the event.\<close>

definition onChange_value :: "ZodType \<Rightarrow> control \<Rightarrow> jsval" where
  "onChange_value fieldSchema target =
     (let unwrapped = unwrapZodType fieldSchema;
          newValue = Str (cvalue target);
          newValue = (if unwrapped \<noteq> ZodString \<and> newValue = Str [] then Undefined else newValue);
          newValue = (if map_option toLowerCase (ctype target) = Some ''checkbox''
                      then Bool (checked target) else newValue)
      in newValue)"

text \<open>\<^verbatim>\<open>onChange\<close> of \<^verbatim>\<open>register(path, fieldSchema)\<close>, on an event of the control.\<close>

definition onChange :: "path \<Rightarrow> ZodType \<Rightarrow> element \<Rightarrow> form_state \<Rightarrow> form_state" where
  "onChange p fieldSchema currentTarget s =
     setFormValue (\<lambda>v. setDeepProp v p (onChange_value fieldSchema (dom s currentTarget))) s"

text \<open>
  The \<^verbatim>\<open>ref\<close> callback of \<^verbatim>\<open>register(path, fieldSchema)\<close>: called with the
  control when it mounts and with \<^verbatim>\<open>null\<close> when it unmounts.
\<close>

definition ref_callback :: "path \<Rightarrow> element option \<Rightarrow> form_state \<Rightarrow> form_state" where
  "ref_callback p r s =
     (let name = register_name p in
      case r of
        Some el \<Rightarrow>
          (let refIndex = (if isRadio (dom s el) then name @ ''.'' @ cvalue (dom s el) else name)
           in s\<lparr>fieldRefs := AList.update refIndex \<lparr>path = p, ref = el\<rparr> (fieldRefs s)\<rparr>)
      | None \<Rightarrow> s\<lparr>fieldRefs := AList.delete name (fieldRefs s)\<rparr>)"

subsection \<open>Events\<close>

text \<open>
  The first render: the hook makes its state, the controls that are rendered mount,
  and the effect runs.
\<close>

definition first_render ::
  "UseFormOptions \<Rightarrow> (element \<Rightarrow> control) \<Rightarrow> (path \<times> element) list \<Rightarrow> form_state" where
  "first_render opts d regs =
     useEffect opts (fold (\<lambda>(p, el). ref_callback p (Some el)) regs (useForm opts d))"

text \<open>
  The events of the form. A reset comes with the word of the caller on the object it
  passes (or on the configured initial values, when it passes none): whether it is the
  very object the form holds.
\<close>

datatype action =
    Change path ZodType element
  | Reset jsval bool
  | Submit SubmitHandler FormEvent
  | Mount path element
  | Unmount path

fun apply_action :: "UseFormOptions \<Rightarrow> action \<Rightarrow> form_state \<Rightarrow> form_state" where
  "apply_action opts (Change p fieldSchema el) s = onChange p fieldSchema el s"
| "apply_action opts (Reset values same) s = reset opts values s"
| "apply_action opts (Submit handler e) s = snd (snd (snd (handleSubmit opts handler e s)))"
| "apply_action opts (Mount p el) s = ref_callback p (Some el) s"
| "apply_action opts (Unmount p) s = ref_callback p None s"

text \<open>
  \<^verbatim>\<open>Object.is\<close> of the value of the form after and before an event. The change
  handler stores a new tree, or, on the empty path, a primitive; primitives are the same
  when they are equal. A reset stores the object of the caller. The other events leave
  the value where it is.
\<close>

fun same_formValue :: "action \<Rightarrow> form_state \<Rightarrow> form_state \<Rightarrow> bool" where
  "same_formValue (Change p fieldSchema el) old new = (p = [] \<and> formValue new = formValue old)"
| "same_formValue (Reset values same) old new =
     (formValue new = formValue old \<and> (same \<or> is_leaf (formValue new)))"
| "same_formValue a old new = True"

text \<open>
  After an event the hook renders again, and the effect runs when one of its
  dependencies has changed: the value of the form or the flag (the validation routine
  changes with the value; the schema is the same object in every render).
\<close>

definition rerender :: "UseFormOptions \<Rightarrow> action \<Rightarrow> form_state \<Rightarrow> form_state \<Rightarrow> form_state" where
  "rerender opts a old new =
     (if \<not> same_formValue a old new \<or> validateOnChange new \<noteq> validateOnChange old
      then useEffect opts new else new)"

definition step :: "UseFormOptions \<Rightarrow> action \<Rightarrow> form_state \<Rightarrow> form_state" where
  "step opts a s = rerender opts a s (apply_action opts a s)"

definition run :: "UseFormOptions \<Rightarrow> action list \<Rightarrow> form_state \<Rightarrow> form_state" where
  "run opts acts s = fold (step opts) acts s"

fun is_Submit :: "action \<Rightarrow> bool" where
  "is_Submit (Submit handler e) = True"
| "is_Submit a = False"

text \<open>
  What the reconciliation is to leave in a control: \<open>c\<close> is the control before,
  \<open>c'\<close> the control after, \<open>v\<close> the value of the tree at the path of the field.
\<close>

definition shows_value :: "jsval \<Rightarrow> control \<Rightarrow> control \<Rightarrow> bool" where
  "shows_value v c c' =
     ((isRadio c \<longrightarrow> (checked c' \<longleftrightarrow> Str (cvalue c) = v)) \<and>
      (\<not> isRadio c \<and> isCheckbox c \<longrightarrow> (checked c' \<longleftrightarrow> js_Boolean v)) \<and>
      (\<not> isRadio c \<and> \<not> isCheckbox c \<longrightarrow>
         cvalue c' = (if v = Undefined \<or> v = Null then [] else js_String v)))"

section \<open>An example form\<close>

text \<open>
  A form with a required name and a choice between two radio options, over a document
  with a text input, a checkbox, two radio inputs and an empty number input.
\<close>

definition name_path :: path where
  "name_path = [\<lparr>key = KStr ''name'', array = False\<rparr>]"

definition choice_path :: path where
  "choice_path = [\<lparr>key = KStr ''choice'', array = False\<rparr>]"

definition required_issue :: ZodIssue where
  "required_issue =
     \<lparr>issue_code = ''too_small'', issue_path = [KStr ''name''], issue_message = ''Required''\<rparr>"

definition example_schema :: "jsval \<Rightarrow> ZodError + jsval" where
  "example_schema v =
     (case getDeepProp v name_path of
        Str n \<Rightarrow> (if n = [] then Inl [required_issue] else Inr v)
      | _ \<Rightarrow> Inl [required_issue])"

definition example_opts :: UseFormOptions where
  "example_opts = \<lparr>schema = example_schema, initialValues = Undefined\<rparr>"

definition example_dom :: "element \<Rightarrow> control" where
  "example_dom =
     (\<lambda>el. \<lparr>ctype = Some ''text'', cvalue = ''Al'', checked = False\<rparr>)
       (5 := \<lparr>ctype = Some ''checkbox'', cvalue = ''on'', checked = True\<rparr>,
        2 := \<lparr>ctype = Some ''radio'', cvalue = ''a'', checked = False\<rparr>,
        3 := \<lparr>ctype = Some ''radio'', cvalue = ''b'', checked = True\<rparr>,
        4 := \<lparr>ctype = Some ''number'', cvalue = [], checked = False\<rparr>)"

definition example_state :: form_state where
  "example_state = useForm example_opts example_dom"

definition named_state :: form_state where
  "named_state = onChange name_path ZodString 0 example_state"

definition example_event :: FormEvent where
  "example_event = \<lparr>defaultPrevented = False, propagationStopped = False\<rparr>"

definition example_tree :: jsval where
  "example_tree = Obj [(KStr ''name'', Str ''Al''), (KStr ''choice'', Str ''a'')]"

definition returning_handler :: SubmitHandler where
  "returning_handler = (\<lambda>values. Returned)"

definition throwing_handler :: SubmitHandler where
  "throwing_handler = (\<lambda>values. Thrown)"

definition touched_state :: form_state where
  "touched_state = step example_opts (Submit returning_handler example_event) example_state"

definition radio_state :: form_state where
  "radio_state =
     onChange choice_path ZodString 2
       (ref_callback choice_path (Some 3) (ref_callback choice_path (Some 2) example_state))"

definition filled_opts :: UseFormOptions where
  "filled_opts = \<lparr>schema = example_schema, initialValues = Obj [(KStr ''name'', Str ''Al'')]\<rparr>"

section \<open>Properties of the path utilities\<close>

lemma lookup_store_same: "lookup (store kvs k v) k = v"
  by (induction kvs) auto

lemma lookup_store_other: "k' \<noteq> k \<Longrightarrow> lookup (store kvs k v) k' = lookup kvs k'"
  by (induction kvs) auto

lemma lookup_zip_KStr: "lookup (zip (map KNum ns) xs) (KStr s) = Undefined"
  by (induction ns arbitrary: xs) (auto split: list.splits simp: zip_Cons1)

lemma lookup_zip_KNum_aux:
  "lookup (zip (map KNum [m..<m + length xs]) xs) (KNum j) =
     (if m \<le> j \<and> j < m + length xs then xs ! (j - m) else Undefined)"
proof (induction xs arbitrary: m)
  case Nil
  then show ?case by auto
next
  case (Cons x xs)
  have "[m..<m + length (x # xs)] = m # [Suc m..<Suc m + length xs]"
    by (subst upt_rec) simp
  then show ?case using Cons [of "Suc m"] by (auto simp: nth_Cons')
qed

lemma lookup_zip_KNum:
  "lookup (zip (map KNum [0..<length xs]) xs) (KNum j) =
     (if j < length xs then xs ! j else Undefined)"
  using lookup_zip_KNum_aux [of 0 xs j] by simp

lemma child_put_same: "child (put c k v) k = v"
  by (cases c; cases k) (auto simp: lookup_store_same store_index_def)

lemma child_put_other: "k' \<noteq> k \<Longrightarrow> child (put c k v) k' = child c k'"
  by (cases c; cases k; cases k')
     (auto simp: lookup_store_other store_index_def lookup_zip_KStr lookup_zip_KNum nth_append)

lemma child_container: "child (container t p) k = child t k"
  by (cases t; cases k) auto

lemma get_set: "getDeepProp (setDeepProp t P v) P = v"
  by (induction P arbitrary: t) (auto simp: Let_def child_put_same)

lemma set_frame: "diverge P Q \<Longrightarrow> getDeepProp (setDeepProp t P v) Q = getDeepProp t Q"
proof (induction P Q arbitrary: t rule: diverge.induct)
  case (1 p ps q qs)
  show ?case
  proof (cases "key p = key q")
    case True
    with 1 have "diverge ps qs" by simp
    with 1 True show ?thesis by (simp add: Let_def child_put_same child_container)
  next
    case False
    then show ?thesis by (simp add: Let_def child_put_other child_container)
  qed
qed auto

section \<open>Properties of structural equality\<close>

lemma lookup_in_values: "k \<in> fst ` set kvs \<Longrightarrow> lookup kvs k \<in> snd ` set kvs"
proof (induction kvs)
  case Nil
  then show ?case by simp
next
  case (Cons a kvs)
  obtain k' v' where a: "a = (k', v')" by (cases a)
  show ?case
  proof (cases "k' = k")
    case True
    with a show ?thesis by simp
  next
    case False
    with Cons.prems a have "k \<in> fst ` set kvs" by auto
    from Cons.IH [OF this] a False show ?thesis by simp
  qed
qed

lemma lookup_absent: "k \<notin> fst ` set kvs \<Longrightarrow> lookup kvs k = Undefined"
  by (induction kvs) auto

lemma deepEqual_refl: "deepEqual t t"
proof (induction t)
  case (Arr xs)
  then show ?case by simp
next
  case (Obj kvs)
  have "deepEqual (lookup kvs k) (lookup kvs k)" if "k \<in> fst ` set kvs" for k
  proof -
    from lookup_in_values [OF that] obtain e where e: "e \<in> set kvs" "lookup kvs k = snd e"
      by auto
    obtain a b where ab: "e = (a, b)" by (cases e)
    from Obj [OF e(1), of b] ab e(2) show ?thesis by simp
  qed
  then show ?case by simp
qed simp_all

lemma deepEqual_leaf_right: "is_leaf v \<Longrightarrow> deepEqual x v = (x = v)"
  by (cases x; cases v) auto

lemma deepEqual_leaf_left: "is_leaf v \<Longrightarrow> deepEqual v x = (v = x)"
  by (cases x; cases v) auto

lemma deepEqual_child: "deepEqual a b \<Longrightarrow> deepEqual (child a k) (child b k)"
proof (cases a; cases b)
  fix xs ys assume ab: "a = Obj xs" "b = Obj ys" and eq: "deepEqual a b"
  show ?thesis
  proof (cases "k \<in> fst ` set xs")
    case True
    with ab eq show ?thesis by fastforce
  next
    case False
    with ab eq have "k \<notin> fst ` set ys" by simp
    with False ab show ?thesis by (simp add: lookup_absent)
  qed
next
  fix xs ys assume ab: "a = Arr xs" "b = Arr ys" and eq: "deepEqual a b"
  then show ?thesis by (cases k) auto
qed auto

lemma deepEqual_get: "deepEqual a b \<Longrightarrow> deepEqual (getDeepProp a P) (getDeepProp b P)"
  by (induction P arbitrary: a b) (auto intro: deepEqual_child)

section \<open>Properties of the reconciliation\<close>

lemma ctype_set_control: "ctype (set_control v c) = ctype c"
  by (simp add: set_control_def)

lemma isRadio_set_control: "isRadio (set_control v c) = isRadio c"
  by (simp add: isRadio_def ctype_set_control)

lemma isCheckbox_set_control: "isCheckbox (set_control v c) = isCheckbox c"
  by (simp add: isCheckbox_def ctype_set_control)

lemma cvalue_set_control: "isRadio c \<Longrightarrow> cvalue (set_control v c) = cvalue c"
  by (simp add: set_control_def)

lemma set_control_radio: "isRadio c \<Longrightarrow> set_control v c = c\<lparr>checked := (Str (cvalue c) = v)\<rparr>"
  by (simp add: set_control_def)

lemma set_control_checkbox:
  "\<not> isRadio c \<Longrightarrow> isCheckbox c \<Longrightarrow> set_control v c = c\<lparr>checked := js_Boolean v\<rparr>"
  by (simp add: set_control_def)

lemma set_control_other:
  "\<not> isRadio c \<Longrightarrow> \<not> isCheckbox c \<Longrightarrow>
     set_control v c = c\<lparr>cvalue := js_String (nullish v (Str []))\<rparr>"
  by (simp add: set_control_def)

lemma set_control_twice: "set_control v (set_control w c) = set_control v c"
proof (cases "isRadio c")
  case True
  then have "isRadio (c\<lparr>checked := (Str (cvalue c) = w)\<rparr>)" by (simp add: isRadio_def)
  with True show ?thesis by (simp add: set_control_radio)
next
  case False
  note nr = this
  show ?thesis
  proof (cases "isCheckbox c")
    case True
    with nr have "\<not> isRadio (c\<lparr>checked := js_Boolean w\<rparr>)" "isCheckbox (c\<lparr>checked := js_Boolean w\<rparr>)"
      by (simp_all add: isRadio_def isCheckbox_def)
    with nr True show ?thesis by (simp add: set_control_checkbox)
  next
    case False
    with nr have "\<not> isRadio (c\<lparr>cvalue := js_String (nullish w (Str []))\<rparr>)"
      "\<not> isCheckbox (c\<lparr>cvalue := js_String (nullish w (Str []))\<rparr>)"
      by (simp_all add: isRadio_def isCheckbox_def)
    with nr False show ?thesis by (simp add: set_control_other)
  qed
qed

lemma shows_value_set_control:
  "ctype c1 = ctype c \<Longrightarrow> (isRadio c \<Longrightarrow> cvalue c1 = cvalue c) \<Longrightarrow>
     shows_value v c (set_control v c1)"
  by (auto simp: shows_value_def set_control_def isRadio_def isCheckbox_def nullish_def)

lemma ctype_set_fields: "ctype (set_fields fv frs d x) = ctype (d x)"
  by (induction frs arbitrary: d) (auto simp: set_fields_def set_field_def ctype_set_control)

lemma cvalue_set_fields: "isRadio (d x) \<Longrightarrow> cvalue (set_fields fv frs d x) = cvalue (d x)"
proof (induction frs arbitrary: d)
  case Nil
  then show ?case by (simp add: set_fields_def)
next
  case (Cons fr frs)
  have r: "isRadio (set_field fv fr d x)"
    using Cons.prems by (auto simp: set_field_def isRadio_set_control)
  have "set_fields fv (fr # frs) d x = set_fields fv frs (set_field fv fr d) x"
    by (simp add: set_fields_def)
  also have "cvalue \<dots> = cvalue (set_field fv fr d x)"
    by (rule Cons.IH [of "set_field fv fr d", OF r])
  also have "\<dots> = cvalue (d x)"
    using Cons.prems by (auto simp: set_field_def cvalue_set_control)
  finally show ?case .
qed

lemma set_fields_snoc: "set_fields fv (frs @ [fr]) d = set_field fv fr (set_fields fv frs d)"
  by (simp add: set_fields_def)

lemma set_fields_untouched: "x \<notin> ref ` set frs \<Longrightarrow> set_fields fv frs d x = d x"
  by (induction frs arbitrary: d) (auto simp: set_fields_def set_field_def)

lemma set_fields_final:
  "x \<in> ref ` set frs \<Longrightarrow> \<forall>fr \<in> set frs. ref fr = x \<longrightarrow> getDeepProp fv (path fr) = v \<Longrightarrow>
     set_fields fv frs d x = set_control v (d x)"
proof (induction frs arbitrary: d)
  case Nil
  then show ?case by simp
next
  case (Cons fr frs)
  have unf: "set_fields fv (fr # frs) d = set_fields fv frs (set_field fv fr d)"
    by (simp add: set_fields_def)
  show ?case
  proof (cases "x \<in> ref ` set frs")
    case True
    from Cons.prems(2) have "\<forall>fr \<in> set frs. ref fr = x \<longrightarrow> getDeepProp fv (path fr) = v" by simp
    from Cons.IH [OF True this, of "set_field fv fr d"] unf
    have "set_fields fv (fr # frs) d x = set_control v (set_field fv fr d x)" by simp
    then show ?thesis by (simp add: set_field_def set_control_twice)
  next
    case False
    with Cons.prems have "ref fr = x" "getDeepProp fv (path fr) = v" by auto
    with unf set_fields_untouched [OF False, of fv "set_field fv fr d"] show ?thesis
      by (simp add: set_field_def)
  qed
qed

lemma dom_useEffect:
  "dom (useEffect opts s) = set_fields (formValue s) (Object_values (fieldRefs s)) (dom s)"
  by (simp add: useEffect_def validate_def Let_def split: sum.splits)

section \<open>Properties of the events\<close>

lemma validateOnChange_validate: "validateOnChange (snd (validate opts s)) = validateOnChange s"
  by (simp add: validate_def split: sum.splits)

lemma formErrors_validate:
  "formErrors (snd (validate opts s)) =
     (case schema opts (formValue s) of Inl e \<Rightarrow> Some e | Inr d \<Rightarrow> None)"
  by (simp add: validate_def split: sum.splits)

lemma formValue_validate: "formValue (snd (validate opts s)) = formValue s"
  by (simp add: validate_def split: sum.splits)

lemma validateOnChange_useEffect: "validateOnChange (useEffect opts s) = validateOnChange s"
  by (simp add: useEffect_def Let_def validateOnChange_validate)

lemma formValue_useEffect: "formValue (useEffect opts s) = formValue s"
  by (simp add: useEffect_def Let_def formValue_validate)

lemma formErrors_useEffect:
  "formErrors (useEffect opts s) =
     (if validateOnChange s then formErrors (snd (validate opts s)) else formErrors s)"
  by (simp add: useEffect_def Let_def)

lemma validateOnChange_rerender: "validateOnChange (rerender opts a old new) = validateOnChange new"
  by (simp add: rerender_def validateOnChange_useEffect)

lemma state_handleSubmit:
  "snd (snd (snd (handleSubmit opts h e s))) =
     (if submit_completes opts h s then (snd (validate opts s))\<lparr>validateOnChange := True\<rparr>
      else snd (validate opts s))"
proof (cases "schema opts (formValue s)")
  case (Inl err)
  then show ?thesis
    by (simp add: handleSubmit_def submit_completes_def validate_def Let_def)
next
  case (Inr data)
  show ?thesis
  proof (cases "js_Boolean data")
    case True
    with Inr show ?thesis
      by (cases "h data") (simp_all add: handleSubmit_def submit_completes_def validate_def Let_def)
  next
    case False
    with Inr show ?thesis
      by (simp add: handleSubmit_def submit_completes_def validate_def Let_def)
  qed
qed

lemma validateOnChange_handleSubmit:
  "validateOnChange (snd (snd (snd (handleSubmit opts h e s)))) =
     (validateOnChange s \<or> submit_completes opts h s)"
  by (simp add: state_handleSubmit validateOnChange_validate)

lemma formValue_handleSubmit: "formValue (snd (snd (snd (handleSubmit opts h e s)))) = formValue s"
  by (simp add: state_handleSubmit formValue_validate)

lemma validateOnChange_apply_action:
  "\<not> is_Submit a \<Longrightarrow> validateOnChange (apply_action opts a s) = validateOnChange s"
  by (cases a)
     (simp_all add: onChange_def setFormValue_def reset_def Let_def ref_callback_def
        split: option.splits)

lemma validateOnChange_step:
  "\<not> is_Submit a \<Longrightarrow> validateOnChange (step opts a s) = validateOnChange s"
  by (simp add: step_def validateOnChange_rerender validateOnChange_apply_action)

lemma validateOnChange_step_Submit:
  "validateOnChange (step opts (Submit h e) s) = (validateOnChange s \<or> submit_completes opts h s)"
  by (simp add: step_def validateOnChange_rerender validateOnChange_handleSubmit)

lemma validateOnChange_step_mono: "validateOnChange s \<Longrightarrow> validateOnChange (step opts a s)"
  by (cases a) (simp_all add: validateOnChange_step validateOnChange_step_Submit)

lemma run_Cons: "run opts (a # acts) s = run opts acts (step opts a s)"
  by (simp add: run_def)

lemma validateOnChange_run_mono: "validateOnChange s \<Longrightarrow> validateOnChange (run opts acts s)"
  by (induction acts arbitrary: s) (simp_all add: run_def validateOnChange_step_mono)

lemma validateOnChange_run_clean:
  "\<forall>a \<in> set acts. \<not> is_Submit a \<Longrightarrow> validateOnChange (run opts acts s) = validateOnChange s"
  by (induction acts arbitrary: s) (simp_all add: run_def validateOnChange_step)

lemma submit_completes_returning: "\<forall>v. h v = Returned \<Longrightarrow> submit_completes opts h s"
  by (simp add: submit_completes_def split: sum.splits)

lemma validateOnChange_run_returning:
  "\<forall>h e v. Submit h e \<in> set acts \<longrightarrow> h v = Returned \<Longrightarrow>
     validateOnChange (run opts acts s) = (validateOnChange s \<or> (\<exists>a \<in> set acts. is_Submit a))"
proof (induction acts arbitrary: s)
  case Nil
  then show ?case by (simp add: run_def)
next
  case (Cons a acts)
  from Cons.prems have rest: "\<forall>h e v. Submit h e \<in> set acts \<longrightarrow> h v = Returned" by simp
  have first: "validateOnChange (step opts a s) = (validateOnChange s \<or> is_Submit a)"
  proof (cases "is_Submit a")
    case True
    then obtain h e where a: "a = Submit h e" by (cases a) simp_all
    with Cons.prems have "\<forall>v. h v = Returned" by simp
    with a show ?thesis
      by (simp add: validateOnChange_step_Submit submit_completes_returning)
  next
    case False
    then show ?thesis by (simp add: validateOnChange_step)
  qed
  from Cons.IH [OF rest, of "step opts a s"] first show ?case
    by (auto simp: run_Cons)
qed

lemma formErrors_apply_action:
  "\<not> is_Submit a \<Longrightarrow> formErrors (apply_action opts a s) = formErrors s"
  by (cases a)
     (simp_all add: onChange_def setFormValue_def reset_def Let_def ref_callback_def
        split: option.splits)

lemma formErrors_step_clean:
  "\<not> validateOnChange s \<Longrightarrow> \<not> is_Submit a \<Longrightarrow> formErrors (step opts a s) = formErrors s"
  by (simp add: step_def rerender_def formErrors_useEffect validateOnChange_apply_action
        formErrors_apply_action)

lemma formValue_step:
  "formValue (step opts a s) = formValue (apply_action opts a s)"
  by (simp add: step_def rerender_def formValue_useEffect)

lemma validateOnChange_apply_action_mono:
  "validateOnChange s \<Longrightarrow> validateOnChange (apply_action opts a s)"
  by (cases a)
     (simp_all add: onChange_def setFormValue_def reset_def Let_def ref_callback_def
        validateOnChange_handleSubmit split: option.splits)

lemma formErrors_step_effect:
  assumes "validateOnChange s" and "\<not> same_formValue a s (apply_action opts a s)"
  shows "formErrors (step opts a s) =
           (case schema opts (formValue (step opts a s)) of Inl e \<Rightarrow> Some e | Inr d \<Rightarrow> None)"
  using assms validateOnChange_apply_action_mono [of s opts a]
  by (simp add: step_def rerender_def formErrors_useEffect formValue_useEffect formErrors_validate)

lemma changed_not_same:
  "formValue (apply_action opts a s) \<noteq> formValue s \<Longrightarrow> \<not> same_formValue a s (apply_action opts a s)"
  by (cases a) (simp_all add: formValue_handleSubmit ref_callback_def Let_def split: option.splits)

lemma formErrors_run_clean:
  "\<not> validateOnChange s \<Longrightarrow> \<forall>a \<in> set acts. \<not> is_Submit a \<Longrightarrow>
     formErrors (run opts acts s) = formErrors s"
proof (induction acts arbitrary: s)
  case Nil
  then show ?case by (simp add: run_def)
next
  case (Cons a acts)
  from Cons.prems have "\<not> validateOnChange (step opts a s)" by (simp add: validateOnChange_step)
  from Cons.IH [OF this] Cons.prems show ?case by (simp add: run_Cons formErrors_step_clean)
qed

lemma fold_ref_callback:
  "validateOnChange (fold (\<lambda>(p, el). ref_callback p (Some el)) regs s) = validateOnChange s \<and>
   formErrors (fold (\<lambda>(p, el). ref_callback p (Some el)) regs s) = formErrors s \<and>
   formValue (fold (\<lambda>(p, el). ref_callback p (Some el)) regs s) = formValue s \<and>
   internalInitialValues (fold (\<lambda>(p, el). ref_callback p (Some el)) regs s) = internalInitialValues s"
  by (induction regs arbitrary: s) (simp_all add: ref_callback_def Let_def split: prod.splits)

lemma first_render_clean:
  "\<not> validateOnChange (first_render opts d regs)" "formErrors (first_render opts d regs) = None"
  by (simp_all add: first_render_def validateOnChange_useEffect formErrors_useEffect
        fold_ref_callback useForm_def)

section \<open>The example form, evaluated\<close>

lemmas example_defs =
  name_path_def choice_path_def required_issue_def example_schema_def example_opts_def
  example_dom_def example_state_def named_state_def example_event_def example_tree_def

lemma toLowerCase_examples:
  "toLowerCase ''checkbox'' = ''checkbox''" "toLowerCase ''radio'' = ''radio''"
  "toLowerCase ''text'' = ''text''" "toLowerCase ''number'' = ''number''"
  by (simp_all add: toLowerCase_def lower_char_def)

lemma formValue_named_state: "formValue named_state = Obj [(KStr ''name'', Str ''Al'')]"
  by (simp add: example_defs useForm_def initial_values_def structuredClone_def onChange_def
        onChange_value_def setFormValue_def Let_def toLowerCase_examples)

lemma formValue_example_state: "formValue example_state = Obj []"
  by (simp add: example_defs useForm_def initial_values_def structuredClone_def)

lemma formValue_touched_state: "formValue touched_state = Obj []"
  by (simp add: touched_state_def formValue_step formValue_handleSubmit formValue_example_state)

lemma dom_step_Submit_example: "dom touched_state 0 = \<lparr>ctype = Some ''text'', cvalue = ''Al'', checked = False\<rparr>"
  by (simp add: touched_state_def step_def rerender_def handleSubmit_def Let_def validate_def
       useEffect_def set_fields_def Object_values_def example_defs useForm_def
       initial_values_def structuredClone_def returning_handler_def
       split: prod.splits sum.splits)

section \<open>The claims\<close>

text \<open>
  C10: \<^verbatim>\<open>validate\<close> changes neither the value of the form nor the baseline, whether
  the parse succeeds or fails; of the state it changes the stored error only, and the
  parsed value is returned, not written into the tree.
\<close>

theorem validate_frame:
  "formValue (snd (validate opts s)) = formValue s \<and>
   internalInitialValues (snd (validate opts s)) = internalInitialValues s \<and>
   snd (validate opts s) = s\<lparr>formErrors := formErrors (snd (validate opts s))\<rparr>"
  by (simp add: validate_def split: sum.splits)

text \<open>
  C7: the reconciliation goes through the registered fields and sets each control from
  the value of the tree at the path of the field: a radio control is checked exactly
  when its own value is that value, a checkbox exactly when the value is truthy, and
  any other control shows the string of the value, the empty string for
  \<^verbatim>\<open>undefined\<close> and \<^verbatim>\<open>null\<close>. This holds of each control right after its
  entry has been handled, and at the end of the run for every entry whose control no
  other entry sets from a different value.
\<close>

theorem reconciliation_sets_controls:
  assumes frs: "frs = Object_values (fieldRefs s)" and i: "i < length frs"
  shows "shows_value (getDeepProp (formValue s) (path (frs ! i))) (dom s (ref (frs ! i)))
           (set_fields (formValue s) (take (Suc i) frs) (dom s) (ref (frs ! i))) \<and>
         ((\<forall>j < length frs. ref (frs ! j) = ref (frs ! i) \<longrightarrow>
              getDeepProp (formValue s) (path (frs ! j)) = getDeepProp (formValue s) (path (frs ! i))) \<longrightarrow>
          shows_value (getDeepProp (formValue s) (path (frs ! i))) (dom s (ref (frs ! i)))
            (dom (useEffect opts s) (ref (frs ! i))))"
proof
  let ?fv = "formValue s" and ?fr = "frs ! i"
  let ?d = "set_fields ?fv (take i frs) (dom s)"
  have "take (Suc i) frs = take i frs @ [?fr]"
    using i by (simp add: take_Suc_conv_app_nth)
  then have "set_fields ?fv (take (Suc i) frs) (dom s) (ref ?fr) =
      set_control (getDeepProp ?fv (path ?fr)) (?d (ref ?fr))"
    by (simp add: set_fields_snoc set_field_def)
  moreover have "shows_value (getDeepProp ?fv (path ?fr)) (dom s (ref ?fr))
      (set_control (getDeepProp ?fv (path ?fr)) (?d (ref ?fr)))"
    by (rule shows_value_set_control) (simp_all add: ctype_set_fields cvalue_set_fields)
  ultimately show "shows_value (getDeepProp ?fv (path ?fr)) (dom s (ref ?fr))
      (set_fields ?fv (take (Suc i) frs) (dom s) (ref ?fr))"
    by simp
next
  let ?fv = "formValue s" and ?fr = "frs ! i"
  show "(\<forall>j < length frs. ref (frs ! j) = ref ?fr \<longrightarrow>
            getDeepProp ?fv (path (frs ! j)) = getDeepProp ?fv (path ?fr)) \<longrightarrow>
        shows_value (getDeepProp ?fv (path ?fr)) (dom s (ref ?fr)) (dom (useEffect opts s) (ref ?fr))"
  proof
    assume agree: "\<forall>j < length frs. ref (frs ! j) = ref ?fr \<longrightarrow>
        getDeepProp ?fv (path (frs ! j)) = getDeepProp ?fv (path ?fr)"
    have mem: "ref ?fr \<in> ref ` set frs" using i by simp
    have "\<forall>fr \<in> set frs. ref fr = ref ?fr \<longrightarrow> getDeepProp ?fv (path fr) = getDeepProp ?fv (path ?fr)"
    proof (intro ballI impI)
      fix fr assume "fr \<in> set frs" and same: "ref fr = ref ?fr"
      then obtain j where j: "j < length frs" "frs ! j = fr"
        by (auto simp: in_set_conv_nth)
      from agree [rule_format, OF j(1)] same j(2) show "getDeepProp ?fv (path fr) = getDeepProp ?fv (path ?fr)"
        by simp
    qed
    from set_fields_final [OF mem this, of "dom s"] frs
    have "dom (useEffect opts s) (ref ?fr) = set_control (getDeepProp ?fv (path ?fr)) (dom s (ref ?fr))"
      by (simp add: dom_useEffect)
    moreover have "shows_value (getDeepProp ?fv (path ?fr)) (dom s (ref ?fr))
        (set_control (getDeepProp ?fv (path ?fr)) (dom s (ref ?fr)))"
      by (rule shows_value_set_control) simp_all
    ultimately show "shows_value (getDeepProp ?fv (path ?fr)) (dom s (ref ?fr)) (dom (useEffect opts s) (ref ?fr))"
      by simp
  qed
qed

theorem reconciliation_sets_controls_witness:
  "checked (dom (useEffect example_opts radio_state) 2) \<and>
   \<not> checked (dom (useEffect example_opts radio_state) 3)"
proof -
  let ?frs = "[\<lparr>path = choice_path, ref = 2\<rparr>, \<lparr>path = choice_path, ref = 3\<rparr>]"
  have frs: "?frs = Object_values (fieldRefs radio_state)"
    by (simp add: radio_state_def onChange_def setFormValue_def ref_callback_def
          register_name_def Let_def isRadio_def Object_values_def example_state_def useForm_def
          example_dom_def choice_path_def toLowerCase_examples)
  have fv: "getDeepProp (formValue radio_state) choice_path = Str ''a''"
    by (simp add: radio_state_def onChange_def onChange_value_def setFormValue_def
          ref_callback_def Let_def example_state_def useForm_def initial_values_def
          structuredClone_def example_opts_def example_dom_def choice_path_def
          toLowerCase_examples)
  have d2: "dom radio_state 2 = \<lparr>ctype = Some ''radio'', cvalue = ''a'', checked = False\<rparr>"
    and d3: "dom radio_state 3 = \<lparr>ctype = Some ''radio'', cvalue = ''b'', checked = True\<rparr>"
    by (simp_all add: radio_state_def onChange_def setFormValue_def ref_callback_def Let_def
          example_state_def useForm_def example_dom_def)
  have i0: "0 < length ?frs" and i1: "1 < length ?frs" by simp_all
  have agree0: "\<forall>j < length ?frs. ref (?frs ! j) = ref (?frs ! 0) \<longrightarrow>
      getDeepProp (formValue radio_state) (path (?frs ! j)) =
      getDeepProp (formValue radio_state) (path (?frs ! 0))"
    by (auto simp: nth_Cons' less_Suc_eq)
  have agree1: "\<forall>j < length ?frs. ref (?frs ! j) = ref (?frs ! 1) \<longrightarrow>
      getDeepProp (formValue radio_state) (path (?frs ! j)) =
      getDeepProp (formValue radio_state) (path (?frs ! 1))"
    by (auto simp: nth_Cons' less_Suc_eq)
  from reconciliation_sets_controls [OF frs i0, of example_opts, THEN conjunct2, rule_format,
      OF agree0 [rule_format]]
  have "shows_value (Str ''a'') (dom radio_state 2) (dom (useEffect example_opts radio_state) 2)"
    by (simp add: fv)
  moreover
  from reconciliation_sets_controls [OF frs i1, of example_opts, THEN conjunct2, rule_format,
      OF agree1 [rule_format]]
  have "shows_value (Str ''a'') (dom radio_state 3) (dom (useEffect example_opts radio_state) 3)"
    by (simp add: fv)
  ultimately show ?thesis
    by (simp add: shows_value_def isRadio_def d2 d3 toLowerCase_examples)
qed

text \<open>
  C1: the change handler of a registered field stores, at the path of the field, the
  checked state when the control is a checkbox; for any other control that carries the
  empty string it stores \<^verbatim>\<open>undefined\<close> when the unwrapped schema of the field is not
  a string schema, and the empty string when it is.
\<close>

theorem onChange_stored:
  "(map_option toLowerCase (ctype (dom s el)) \<noteq> Some ''checkbox'' \<and> cvalue (dom s el) = [] \<and>
      unwrapZodType fieldSchema \<noteq> ZodString \<longrightarrow>
      formValue (onChange p fieldSchema el s) = setDeepProp (formValue s) p Undefined \<and>
      getDeepProp (formValue (onChange p fieldSchema el s)) p = Undefined) \<and>
   (map_option toLowerCase (ctype (dom s el)) \<noteq> Some ''checkbox'' \<and> cvalue (dom s el) = [] \<and>
      unwrapZodType fieldSchema = ZodString \<longrightarrow>
      formValue (onChange p fieldSchema el s) = setDeepProp (formValue s) p (Str []) \<and>
      getDeepProp (formValue (onChange p fieldSchema el s)) p = Str []) \<and>
   (map_option toLowerCase (ctype (dom s el)) = Some ''checkbox'' \<longrightarrow>
      formValue (onChange p fieldSchema el s) = setDeepProp (formValue s) p (Bool (checked (dom s el))) \<and>
      getDeepProp (formValue (onChange p fieldSchema el s)) p = Bool (checked (dom s el)))"
  by (auto simp: onChange_def onChange_value_def setFormValue_def Let_def get_set)

theorem onChange_stored_witness:
  "getDeepProp (formValue (onChange name_path ZodNumber 4 example_state)) name_path = Undefined \<and>
   getDeepProp (formValue (onChange name_path (ZodOptional ZodString) 4 example_state)) name_path = Str [] \<and>
   getDeepProp (formValue (onChange name_path ZodBoolean 5 example_state)) name_path = Bool True"
proof -
  have c4: "dom example_state 4 = \<lparr>ctype = Some ''number'', cvalue = [], checked = False\<rparr>"
    and c1: "dom example_state 5 = \<lparr>ctype = Some ''checkbox'', cvalue = ''on'', checked = True\<rparr>"
    by (simp_all add: example_state_def useForm_def example_dom_def)
  have h1: "map_option toLowerCase (ctype (dom example_state 4)) \<noteq> Some ''checkbox'' \<and>
      cvalue (dom example_state 4) = [] \<and> unwrapZodType ZodNumber \<noteq> ZodString"
    by (simp add: c4 toLowerCase_examples)
  have h2: "map_option toLowerCase (ctype (dom example_state 4)) \<noteq> Some ''checkbox'' \<and>
      cvalue (dom example_state 4) = [] \<and> unwrapZodType (ZodOptional ZodString) = ZodString"
    by (simp add: c4 toLowerCase_examples)
  have h3: "map_option toLowerCase (ctype (dom example_state 5)) = Some ''checkbox''"
    by (simp add: c1 toLowerCase_examples)
  from onChange_stored [of example_state 4 ZodNumber name_path, THEN conjunct1, rule_format,
      OF h1, THEN conjunct2]
    onChange_stored [of example_state 4 "ZodOptional ZodString" name_path,
      THEN conjunct2, THEN conjunct1, rule_format, OF h2, THEN conjunct2]
    onChange_stored [of example_state 5 ZodBoolean name_path,
      THEN conjunct2, THEN conjunct2, rule_format, OF h3, THEN conjunct2]
  show ?thesis by (simp add: c1)
qed

text \<open>
  C2, as amended: validation on change is off after the first render; a submit turns
  it on when it reaches the end of its function, which it does whatever the validation
  gave, as long as the handler, if it is called, returns; no event turns it off, and
  \<^verbatim>\<open>reset\<close> leaves it as it is. After a sequence of events whose handlers return it
  is on exactly when a submit is among them. While it is off, an event that is not a
  submit leaves the stored error alone; once it is on, an event that changes the value
  of the form, and every change event of a field, leaves the error of validating the
  new value.
\<close>

theorem validateOnChange_transitions:
  "\<not> validateOnChange (first_render opts d regs) \<and>
   (submit_completes opts h s \<longrightarrow> validateOnChange (step opts (Submit h e) s)) \<and>
   (validateOnChange s \<longrightarrow> validateOnChange (run opts acts s)) \<and>
   ((\<forall>a \<in> set acts. \<not> is_Submit a) \<longrightarrow>
      \<not> validateOnChange (run opts acts (first_render opts d regs)) \<and>
      formErrors (run opts acts (first_render opts d regs)) = None) \<and>
   ((\<forall>h e v. Submit h e \<in> set acts \<longrightarrow> h v = Returned) \<longrightarrow>
      (validateOnChange (run opts acts (first_render opts d regs)) \<longleftrightarrow>
         (\<exists>a \<in> set acts. is_Submit a))) \<and>
   validateOnChange (step opts (Reset v same) s) = validateOnChange s \<and>
   (\<not> validateOnChange s \<and> \<not> is_Submit a \<longrightarrow> formErrors (step opts a s) = formErrors s) \<and>
   (validateOnChange s \<and> formValue (apply_action opts a s) \<noteq> formValue s \<longrightarrow>
      formErrors (step opts a s) =
        (case schema opts (formValue (step opts a s)) of Inl e \<Rightarrow> Some e | Inr d \<Rightarrow> None)) \<and>
   (validateOnChange s \<and> p \<noteq> [] \<longrightarrow>
      formErrors (step opts (Change p fieldSchema el) s) =
        (case schema opts (formValue (step opts (Change p fieldSchema el) s)) of
           Inl e \<Rightarrow> Some e | Inr d \<Rightarrow> None))"
proof -
  let ?s0 = "first_render opts d regs"
  have c4: "(\<forall>a \<in> set acts. \<not> is_Submit a) \<longrightarrow>
      \<not> validateOnChange (run opts acts ?s0) \<and> formErrors (run opts acts ?s0) = None"
    using formErrors_run_clean [where s = "?s0" and acts = acts and opts = opts]
    by (simp add: validateOnChange_run_clean first_render_clean)
  have c5: "(\<forall>h e v. Submit h e \<in> set acts \<longrightarrow> h v = Returned) \<longrightarrow>
      (validateOnChange (run opts acts ?s0) \<longleftrightarrow> (\<exists>a \<in> set acts. is_Submit a))"
    using validateOnChange_run_returning [of acts opts ?s0]
    by (simp add: first_render_clean)
  have c8: "validateOnChange s \<and> formValue (apply_action opts a s) \<noteq> formValue s \<longrightarrow>
      formErrors (step opts a s) =
        (case schema opts (formValue (step opts a s)) of Inl e \<Rightarrow> Some e | Inr d \<Rightarrow> None)"
    using formErrors_step_effect [of s a opts] changed_not_same [of opts a s] by blast
  have c9: "validateOnChange s \<and> p \<noteq> [] \<longrightarrow>
      formErrors (step opts (Change p fieldSchema el) s) =
        (case schema opts (formValue (step opts (Change p fieldSchema el) s)) of
           Inl e \<Rightarrow> Some e | Inr d \<Rightarrow> None)"
    using formErrors_step_effect [of s "Change p fieldSchema el" opts] by simp
  from c4 c5 c8 c9 show ?thesis
    by (simp add: first_render_clean validateOnChange_step_Submit validateOnChange_run_mono
          validateOnChange_step formErrors_step_clean)
qed

theorem validateOnChange_transitions_witness:
  "\<not> validateOnChange
      (run example_opts [Change name_path ZodString 0] (first_render example_opts example_dom [])) \<and>
   formErrors
      (run example_opts [Change name_path ZodString 0] (first_render example_opts example_dom [])) =
     None \<and>
   validateOnChange
     (run example_opts [Change name_path ZodString 0, Submit returning_handler example_event]
        (first_render example_opts example_dom [])) \<and>
   formErrors (step example_opts (Change name_path ZodString 0) example_state) =
     formErrors example_state \<and>
   validateOnChange touched_state \<and>
   validateOnChange (run example_opts [Change name_path ZodString 0] touched_state) \<and>
   formErrors (step example_opts (Change name_path ZodString 0) touched_state) = None"
proof -
  let ?a = "Change name_path ZodString 0"
  let ?sub = "Submit returning_handler example_event"
  note T1 = validateOnChange_transitions [where opts = example_opts and d = example_dom
      and regs = "[]" and acts = "[?a]" and h = returning_handler and e = example_event
      and s = example_state and a = ?a and v = Undefined and same = False and p = name_path
      and fieldSchema = ZodString and el = 0, folded touched_state_def]
  note T2 = validateOnChange_transitions [where opts = example_opts and d = example_dom
      and regs = "[]" and acts = "[?a, ?sub]" and h = returning_handler and e = example_event
      and s = touched_state and a = ?a and v = Undefined and same = False and p = name_path
      and fieldSchema = ZodString and el = 0]
  have clean: "\<not> validateOnChange example_state"
    by (simp add: example_state_def useForm_def)
  have completes: "submit_completes example_opts returning_handler example_state"
    by (simp add: submit_completes_def returning_handler_def split: sum.splits)
  have touched: "validateOnChange touched_state" using T1 completes by blast
  have none: "\<forall>a \<in> set [?a]. \<not> is_Submit a" by simp
  have some: "\<exists>a \<in> set [?a, ?sub]. is_Submit a" by simp
  have returning: "\<forall>h e v. Submit h e \<in> set [?a, ?sub] \<longrightarrow> h v = Returned"
    by (simp add: returning_handler_def)
  have path: "name_path \<noteq> []" by (simp add: name_path_def)
  have new: "formValue (apply_action example_opts ?a touched_state) = Obj [(KStr ''name'', Str ''Al'')]"
    by (simp add: onChange_def onChange_value_def setFormValue_def Let_def formValue_touched_state
          dom_step_Submit_example toLowerCase_examples name_path_def)
  then have changed: "formValue (apply_action example_opts ?a touched_state) \<noteq> formValue touched_state"
    by (simp add: formValue_touched_state)
  have parsed: "schema example_opts (formValue (step example_opts ?a touched_state)) =
      Inr (Obj [(KStr ''name'', Str ''Al'')])"
  proof -
    have "formValue (step example_opts ?a touched_state) = Obj [(KStr ''name'', Str ''Al'')]"
      using new by (simp add: formValue_step)
    then show ?thesis
      by (simp add: example_opts_def example_schema_def name_path_def)
  qed
  have e1: "formErrors (step example_opts ?a example_state) = formErrors example_state"
    using T1 clean by simp
  have e2: "\<not> validateOnChange (run example_opts [?a] (first_render example_opts example_dom [])) \<and>
      formErrors (run example_opts [?a] (first_render example_opts example_dom [])) = None"
    using T1 none by blast
  have e3: "formErrors (step example_opts ?a touched_state) = None"
    using T2 touched changed parsed by simp
  have e4: "formErrors (step example_opts ?a touched_state) = None"
    using T2 touched path parsed by simp
  have v2: "validateOnChange (run example_opts [?a, ?sub] (first_render example_opts example_dom []))"
    using T2 some returning by blast
  have v3: "validateOnChange (run example_opts [?a] touched_state)"
    using T1 [THEN conjunct2, THEN conjunct2, THEN conjunct1] touched
      validateOnChange_transitions [where opts = example_opts and acts = "[?a]"
        and s = touched_state, THEN conjunct2, THEN conjunct2, THEN conjunct1]
    by blast
  from e2 v2 e1 touched v3 e3 e4 show ?thesis by blast
qed

text \<open>
  The claim C2 as it is written fails: the first submit of a form that validates,
  with a handler that throws, leaves validation on change off.
\<close>

theorem validateOnChange_throwing_counterexample:
  "is_Submit (Submit throwing_handler example_event) \<and>
   \<not> validateOnChange
      (run example_opts [Change name_path ZodString 0, Submit throwing_handler example_event]
         (first_render example_opts example_dom []))"
proof -
  let ?s0 = "first_render example_opts example_dom []"
  let ?s1 = "step example_opts (Change name_path ZodString 0) ?s0"
  have s0: "formValue ?s0 = Obj []" "\<not> validateOnChange ?s0"
    "dom ?s0 0 = \<lparr>ctype = Some ''text'', cvalue = ''Al'', checked = False\<rparr>"
    by (simp_all add: first_render_def useEffect_def set_fields_def Object_values_def Let_def
          useForm_def initial_values_def structuredClone_def example_opts_def example_dom_def)
  have fv: "formValue ?s1 = Obj [(KStr ''name'', Str ''Al'')]"
    by (simp add: formValue_step onChange_def onChange_value_def setFormValue_def Let_def s0
          toLowerCase_examples name_path_def)
  have off: "\<not> validateOnChange ?s1"
    by (simp add: validateOnChange_step s0)
  have "schema example_opts (formValue ?s1) = Inr (Obj [(KStr ''name'', Str ''Al'')])"
    unfolding fv by (simp add: example_opts_def example_schema_def name_path_def)
  then have "\<not> submit_completes example_opts throwing_handler ?s1"
    by (simp add: submit_completes_def throwing_handler_def)
  with off have "\<not> validateOnChange (step example_opts (Submit throwing_handler example_event) ?s1)"
    by (simp add: validateOnChange_step_Submit)
  then show ?thesis by (simp add: run_def)
qed

text \<open>
  C3, as amended: the function \<^verbatim>\<open>handleSubmit\<close> returns prevents the default action
  of the event and stops its propagation, validates, calls the handler with the parsed
  value and only when validation succeeded, and turns validation on change on, whether
  validation succeeded or not, when the handler is not called or returns.
\<close>

theorem handleSubmit_effect:
  "handleSubmit opts handler e s = (e', called, out, s') \<Longrightarrow>
     defaultPrevented e' \<and> propagationStopped e' \<and>
     formErrors s' = formErrors (snd (validate opts s)) \<and>
     (\<forall>v. called = Some v \<longrightarrow> schema opts (formValue s) = Inr v) \<and>
     (\<forall>d. schema opts (formValue s) = Inr d \<and> js_Boolean d \<longrightarrow> called = Some d) \<and>
     ((\<forall>v. called = Some v \<longrightarrow> handler v = Returned) \<longrightarrow>
        out = Returned \<and> s' = (snd (validate opts s))\<lparr>validateOnChange := True\<rparr> \<and>
        validateOnChange s')"
  by (cases "schema opts (formValue s)")
     (auto simp: handleSubmit_def validate_def Let_def split: if_splits outcome.splits)

theorem handleSubmit_effect_witness:
  "defaultPrevented (fst (handleSubmit example_opts returning_handler example_event named_state)) \<and>
   propagationStopped (fst (handleSubmit example_opts returning_handler example_event named_state)) \<and>
   fst (snd (handleSubmit example_opts returning_handler example_event named_state)) =
     Some (Obj [(KStr ''name'', Str ''Al'')]) \<and>
   validateOnChange
     (snd (snd (snd (handleSubmit example_opts returning_handler example_event named_state))))"
proof -
  let ?r = "handleSubmit example_opts returning_handler example_event named_state"
  have h: "?r = (fst ?r, fst (snd ?r), fst (snd (snd ?r)), snd (snd (snd ?r)))" by simp
  have ok: "schema example_opts (formValue named_state) = Inr (Obj [(KStr ''name'', Str ''Al'')]) \<and>
      js_Boolean (Obj [(KStr ''name'', Str ''Al'')])"
    by (simp add: formValue_named_state example_opts_def example_schema_def name_path_def)
  have ret: "\<forall>v. fst (snd ?r) = Some v \<longrightarrow> returning_handler v = Returned"
    by (simp add: returning_handler_def)
  from handleSubmit_effect [OF h] ok ret show ?thesis by blast
qed

text \<open>
  The claim C3 as it is written fails: a handler that throws is called with the parsed
  value, and validation on change stays off.
\<close>

theorem handleSubmit_throwing_counterexample:
  "fst (snd (handleSubmit example_opts throwing_handler example_event named_state)) =
     Some (Obj [(KStr ''name'', Str ''Al'')]) \<and>
   \<not> validateOnChange
      (snd (snd (snd (handleSubmit example_opts throwing_handler example_event named_state))))"
proof -
  have ok: "schema example_opts (formValue named_state) = Inr (Obj [(KStr ''name'', Str ''Al'')])"
    by (simp add: formValue_named_state example_opts_def example_schema_def name_path_def)
  have off: "\<not> validateOnChange named_state"
    by (simp add: named_state_def onChange_def setFormValue_def example_state_def useForm_def)
  from ok off show ?thesis
    by (simp add: handleSubmit_def validate_def Let_def throwing_handler_def)
qed

text \<open>
  C4, as amended: \<^verbatim>\<open>isDirty\<close> tells that the value of the form is not deeply
  equal to the baseline; it is false in the first state and after \<^verbatim>\<open>reset\<close>; a set
  that gives a leaf a value other than the value of the baseline at that path makes the
  form dirty, as does every set that changes a leaf of a form that is not dirty; and
  the form is dirty as long as a leaf differs from the value of the baseline at its
  path.
\<close>

theorem isDirty_tracking:
  "isDirty s = (\<not> deepEqual (formValue s) (internalInitialValues s)) \<and>
   \<not> isDirty (useForm opts d) \<and>
   \<not> isDirty (reset opts v s) \<and>
   (is_leaf x \<and> getDeepProp (internalInitialValues s) p \<noteq> x \<longrightarrow>
      isDirty (setFormValue (\<lambda>t. setDeepProp t p x) s)) \<and>
   (\<not> isDirty s \<and> is_leaf x \<and> getDeepProp (formValue s) p \<noteq> x \<longrightarrow>
      isDirty (setFormValue (\<lambda>t. setDeepProp t p x) s)) \<and>
   (is_leaf x \<and> getDeepProp (formValue s) p = x \<and> getDeepProp (internalInitialValues s) p \<noteq> x \<longrightarrow>
      isDirty s)"
proof -
  have differs: "isDirty s'"
    if leaf: "is_leaf x" and here: "getDeepProp (formValue s') p = x"
      and there: "getDeepProp (internalInitialValues s') p \<noteq> x" for s'
  proof (rule ccontr)
    assume "\<not> isDirty s'"
    then have "deepEqual (formValue s') (internalInitialValues s')" by (simp add: isDirty_def)
    from deepEqual_get [OF this, of p] here
    have "deepEqual x (getDeepProp (internalInitialValues s') p)" by simp
    with leaf there show False by (simp add: deepEqual_leaf_left)
  qed
  have written: "isDirty (setFormValue (\<lambda>t. setDeepProp t p x) s)"
    if leaf: "is_leaf x" and there: "getDeepProp (internalInitialValues s) p \<noteq> x"
    by (rule differs [OF leaf]) (simp_all add: setFormValue_def get_set there)
  have changed: "isDirty (setFormValue (\<lambda>t. setDeepProp t p x) s)"
    if clean: "\<not> isDirty s" and leaf: "is_leaf x" and new: "getDeepProp (formValue s) p \<noteq> x"
  proof (rule written [OF leaf])
    from clean have "deepEqual (formValue s) (internalInitialValues s)" by (simp add: isDirty_def)
    from deepEqual_get [OF this, of p]
    show "getDeepProp (internalInitialValues s) p \<noteq> x"
      using leaf new by (auto simp: deepEqual_leaf_right)
  qed
  from differs [of s] written changed show ?thesis
    by (simp add: isDirty_def useForm_def reset_def Let_def structuredClone_def deepEqual_refl)
qed

theorem isDirty_tracking_witness:
  "\<not> isDirty example_state \<and>
   isDirty (setFormValue (\<lambda>t. setDeepProp t name_path (Str ''Al'')) example_state) \<and>
   isDirty named_state"
proof -
  note T = isDirty_tracking [where s = example_state and opts = example_opts and d = example_dom
      and x = "Str ''Al''" and p = name_path and v = Undefined, folded example_state_def]
  note N = isDirty_tracking [where s = named_state and x = "Str ''Al''" and p = name_path]
  have clean: "\<not> isDirty example_state" using T by blast
  have leaf: "is_leaf (Str ''Al'')" by simp
  have changed: "getDeepProp (formValue example_state) name_path \<noteq> Str ''Al''"
    by (simp add: formValue_example_state name_path_def)
  have base: "getDeepProp (internalInitialValues example_state) name_path \<noteq> Str ''Al''"
    by (simp add: example_state_def useForm_def initial_values_def structuredClone_def
          example_opts_def name_path_def)
  have here: "getDeepProp (formValue named_state) name_path = Str ''Al''"
    by (simp add: formValue_named_state name_path_def)
  have there: "getDeepProp (internalInitialValues named_state) name_path \<noteq> Str ''Al''"
    by (simp add: named_state_def onChange_def setFormValue_def example_state_def useForm_def
          initial_values_def structuredClone_def example_opts_def name_path_def)
  have w1: "isDirty (setFormValue (\<lambda>t. setDeepProp t name_path (Str ''Al'')) example_state)"
    using T leaf base by blast
  have w2: "isDirty (setFormValue (\<lambda>t. setDeepProp t name_path (Str ''Al'')) example_state)"
    using T clean leaf changed by blast
  have w3: "isDirty named_state" using N leaf here there by blast
  from clean w1 w2 w3 show ?thesis by blast
qed

text \<open>
  The claim C4 as it is written fails: a second set that puts the baseline value back
  changes a leaf, no reset comes in between, and the form is not dirty after it.
\<close>

theorem isDirty_set_back_counterexample:
  "isDirty (run filled_opts [Change name_path ZodString 3] (useForm filled_opts example_dom)) \<and>
   getDeepProp
     (formValue (run filled_opts [Change name_path ZodString 3] (useForm filled_opts example_dom)))
     name_path \<noteq>
   getDeepProp
     (formValue (run filled_opts [Change name_path ZodString 3, Change name_path ZodString 0]
        (useForm filled_opts example_dom)))
     name_path \<and>
   \<not> isDirty (run filled_opts [Change name_path ZodString 3, Change name_path ZodString 0]
        (useForm filled_opts example_dom))"
  by (simp add: run_def step_def rerender_def useEffect_def set_fields_def Object_values_def
        onChange_def onChange_value_def setFormValue_def Let_def isDirty_def useForm_def
        initial_values_def structuredClone_def filled_opts_def example_dom_def name_path_def
        toLowerCase_examples)

text \<open>
  C5: \<^verbatim>\<open>validate\<close> parses the current value of the form; on success it clears
  the stored error and returns the parsed value; on failure it stores the error of
  this run in place of whatever was stored, and returns \<^verbatim>\<open>undefined\<close>.
\<close>

theorem validate_result:
  "(schema opts (formValue s) = Inr d \<longrightarrow> validate opts s = (d, s\<lparr>formErrors := None\<rparr>)) \<and>
   (schema opts (formValue s) = Inl e \<longrightarrow> validate opts s = (Undefined, s\<lparr>formErrors := Some e\<rparr>))"
  by (simp add: validate_def)

theorem validate_result_witness:
  "validate example_opts named_state =
     (Obj [(KStr ''name'', Str ''Al'')], named_state\<lparr>formErrors := None\<rparr>) \<and>
   validate example_opts example_state =
     (Undefined, example_state\<lparr>formErrors := Some [required_issue]\<rparr>)"
proof -
  have ok: "schema example_opts (formValue named_state) = Inr (Obj [(KStr ''name'', Str ''Al'')])"
    by (simp add: formValue_named_state example_opts_def example_schema_def name_path_def)
  have bad: "schema example_opts (formValue example_state) = Inl [required_issue]"
    by (simp add: formValue_example_state example_opts_def example_schema_def name_path_def)
  from validate_result [of example_opts named_state, THEN conjunct1, rule_format, OF ok]
    validate_result [of example_opts example_state, THEN conjunct2, rule_format, OF bad]
  show ?thesis by simp
qed

text \<open>
  C6: reading a path after writing it gives the written value, and the written tree
  agrees with the input on every path that parts ways with the written one.
\<close>

theorem setDeepProp_getDeepProp:
  "getDeepProp (setDeepProp t P v) P = v \<and>
   (\<forall>Q. diverge P Q \<longrightarrow> getDeepProp (setDeepProp t P v) Q = getDeepProp t Q)"
  by (simp add: get_set set_frame)

theorem setDeepProp_getDeepProp_witness:
  "diverge name_path choice_path \<and>
   getDeepProp (setDeepProp example_tree name_path (Str ''Bo'')) name_path = Str ''Bo'' \<and>
   getDeepProp (setDeepProp example_tree name_path (Str ''Bo'')) choice_path = Str ''a''"
proof -
  have d: "diverge name_path choice_path"
    by (simp add: name_path_def choice_path_def)
  have g: "getDeepProp example_tree choice_path = Str ''a''"
    by (simp add: example_tree_def choice_path_def)
  from setDeepProp_getDeepProp [of example_tree name_path "Str ''Bo''", THEN conjunct1]
    setDeepProp_getDeepProp [of example_tree name_path "Str ''Bo''", THEN conjunct2,
      rule_format, OF d] d g
  show ?thesis by (simp only: simp_thms)
qed

text \<open>
  C9: \<^verbatim>\<open>reset\<close> sets the baseline and the value of the form to its argument,
  or to the configured initial values when the argument is omitted; it leaves the
  validate-on-change flag and the stored error as they are.
\<close>

theorem reset_effect:
  "(values \<noteq> Undefined \<longrightarrow>
      formValue (reset opts values s) = values \<and>
      internalInitialValues (reset opts values s) = values) \<and>
   (values = Undefined \<longrightarrow>
      formValue (reset opts values s) = initial_values opts \<and>
      internalInitialValues (reset opts values s) = initial_values opts) \<and>
   validateOnChange (reset opts values s) = validateOnChange s \<and>
   formErrors (reset opts values s) = formErrors s"
  by (simp add: reset_def Let_def)

theorem reset_effect_witness:
  "formValue (reset example_opts example_tree named_state) = example_tree \<and>
   internalInitialValues (reset example_opts example_tree named_state) = example_tree \<and>
   formValue (reset example_opts Undefined named_state) = Obj [] \<and>
   internalInitialValues (reset example_opts Undefined named_state) = Obj []"
proof -
  have h: "example_tree \<noteq> Undefined" by (simp add: example_tree_def)
  have i: "initial_values example_opts = Obj []"
    by (simp add: initial_values_def example_opts_def)
  from reset_effect [of example_tree example_opts named_state, THEN conjunct1, rule_format, OF h]
    reset_effect [of Undefined example_opts named_state, THEN conjunct2, THEN conjunct1,
      rule_format, OF refl] i
  show ?thesis by simp
qed

text \<open>
  C8: on mount the \<^verbatim>\<open>ref\<close> callback records the path and the control under the
  dotted name of the field, with the value of the control appended for a radio control.
  On unmount it deletes the entry under the dotted name alone, so the entry of a radio
  control stays in the table: here the radio control with the value \<^verbatim>\<open>a\<close> of the
  field \<^verbatim>\<open>choice\<close> is mounted and unmounted.
\<close>

theorem ref_callback_unmount_radio:
  "map_of (fieldRefs (ref_callback choice_path (Some 2) example_state)) ''choice.a'' =
     Some \<lparr>path = choice_path, ref = 2\<rparr> \<and>
   map_of (fieldRefs (ref_callback choice_path None
       (ref_callback choice_path (Some 2) example_state))) ''choice.a'' =
     Some \<lparr>path = choice_path, ref = 2\<rparr>"
  by (simp add: ref_callback_def register_name_def Let_def isRadio_def example_state_def
        useForm_def example_dom_def choice_path_def toLowerCase_examples)

end
